theory Spec2Isabelle
  imports Main
begin

section \<open>Blocks\<close>

text \<open>
  A block object of \<^verbatim>\<open>block.js\<close>, with the five fields that \<^verbatim>\<open>blockchain.js\<close> reads and
  writes. A field holding \<^verbatim>\<open>null\<close> is \<open>None\<close>. JavaScript numbers are modelled as
  integers (exact below \<open>2 ^ 53\<close>), \<^verbatim>\<open>NaN\<close> as \<open>None\<close>.
\<close>

record block =
  hash :: "string option"
  height :: int
  body :: string
  time :: string
  previousBlockHash :: "string option"

text \<open>
  The data handed to the block constructor: \<^verbatim>\<open>{data: 'Genesis Block'}\<close> in
  \<^verbatim>\<open>initializeChain\<close> and \<^verbatim>\<open>{owner: address, star: star}\<close> in \<^verbatim>\<open>submitStar\<close>. The star object
  is opaque to the chain, hence a type variable.
\<close>

datatype 's bdata = Genesis_data string | Star_data string 's

text \<open>
  Errors are values. \<open>Error m\<close> is \<^verbatim>\<open>new Error(m)\<close>; \<open>VerifyThrown\<close> is whatever the
  library call \<^verbatim>\<open>bitcoinMessage.verify\<close> throws.
\<close>

datatype error = Error string | VerifyThrown

text \<open>
  Modelled from the spec: the constructor of the class \<^verbatim>\<open>Block\<close> (\<^verbatim>\<open>block.js\<close> is not among
  the sources). A block is built from its payload alone; position, time, linkage and
  digest are assigned when it is sealed by \<^verbatim>\<open>_addBlock\<close>, and the body is the reversible
  encoding of the payload. The encoding is a parameter.
\<close>

definition Block :: "('s bdata \<Rightarrow> string) \<Rightarrow> 's bdata \<Rightarrow> block" where
  "Block encode d =
     \<lparr>hash = None, height = 0, body = encode d, time = ''0'', previousBlockHash = None\<rparr>"

text \<open>
  Modelled from the spec: the method \<^verbatim>\<open>validate\<close> of \<^verbatim>\<open>Block\<close> (the spec's \<^verbatim>\<open>selfCheck\<close>):
  it recomputes the digest from the current fields, the stored hash excluded, and
  tells whether it equals the stored hash. The parameter \<open>digest\<close> stands for
  \<^verbatim>\<open>SHA256(JSON.stringify(block)).toString()\<close> of the library \<^verbatim>\<open>crypto-js\<close>.
\<close>

definition validate :: "(block \<Rightarrow> string) \<Rightarrow> block \<Rightarrow> bool" where
  "validate digest b = (hash b = Some (digest (b\<lparr>hash := None\<rparr>)))"

text \<open>
  Modelled from the spec: the method \<^verbatim>\<open>getBData\<close> of \<^verbatim>\<open>Block\<close> (the spec's \<^verbatim>\<open>decodeBody\<close>):
  it returns the structured payload decoded from the body and fails when the stored
  encoding is malformed. \<open>None\<close> is the failure; the decoding is a parameter.
\<close>

definition getBData :: "(string \<Rightarrow> 's bdata option) \<Rightarrow> block \<Rightarrow> 's bdata option" where
  "getBData decode b = decode (body b)"

section \<open>The clock and its decimal text\<close>

text \<open>
  \<^verbatim>\<open>new Date().getTime()\<close> is a parameter \<open>now\<close>, the milliseconds since the epoch.
  \<open>digit_char\<close> is only applied to a number below ten; \<open>toString\<close> is the decimal text and \<open>slice0 s 3\<close> is \<^verbatim>\<open>s.slice(0, -3)\<close>.
\<close>

definition digit_char :: "nat \<Rightarrow> char" where
  "digit_char d = ''0123456789'' ! d"

fun toString :: "nat \<Rightarrow> string" where
  "toString n = (if n < 10 then [digit_char n] else toString (n div 10) @ [digit_char (n mod 10)])"

declare toString.simps [simp del]

definition slice0 :: "string \<Rightarrow> nat \<Rightarrow> string" where
  "slice0 s k = take (length s - k) s"

section \<open>The chain\<close>

record blockchain =
  chain :: "block list"
  height :: int

text \<open>The constructor, before \<^verbatim>\<open>initializeChain\<close> has committed the Genesis block.\<close>

definition Blockchain :: blockchain where
  "Blockchain = \<lparr>chain = [], height = - 1\<rparr>"

definition getChainHeight :: "blockchain \<Rightarrow> int" where
  "getChainHeight bc = height bc"

subsection \<open>validateChain\<close>

text \<open>
  The loop \<^verbatim>\<open>for (let idx in self.chain)\<close> with its accumulator \<^verbatim>\<open>errorLog\<close>; the
  predecessor is read at \<open>idx - 1\<close> only when \<open>idx \<noteq> 0\<close>, so no read is out of range.
\<close>

function validateChain_loop ::
  "(block \<Rightarrow> string) \<Rightarrow> block list \<Rightarrow> nat \<Rightarrow> error list \<Rightarrow> error list" where
  "validateChain_loop digest ch idx errorLog =
     (if idx < length ch then
        let curBlock = ch ! idx;
            validBlock = validate digest curBlock;
            errorLog1 = (if \<not> validBlock then errorLog @ [Error ''Block not valid'']
                         else errorLog);
            errorLog2 =
              (if idx \<noteq> 0 then
                 let prevIndex = idx - 1;
                     prevBlock = ch ! prevIndex
                 in if previousBlockHash curBlock \<noteq> hash prevBlock
                    then errorLog1 @ [Error ''Incompatible previous hash'']
                    else errorLog1
               else errorLog1)
        in validateChain_loop digest ch (idx + 1) errorLog2
      else errorLog)"
  by pat_completeness auto
termination
  by (relation "measure (\<lambda>(digest, ch, idx, errorLog). length ch - idx)") auto

declare validateChain_loop.simps [simp del]

definition validateChain :: "(block \<Rightarrow> string) \<Rightarrow> block list \<Rightarrow> error list" where
  "validateChain digest ch = validateChain_loop digest ch 0 []"

subsection \<open>The append\<close>

text \<open>
  The block object as \<^verbatim>\<open>_addBlock\<close> mutates it before its first \<^verbatim>\<open>await\<close>: height, time,
  previous hash (when the chain is not empty) and hash, in this order.
\<close>

definition addBlock_block :: "(block \<Rightarrow> string) \<Rightarrow> nat \<Rightarrow> blockchain \<Rightarrow> block \<Rightarrow> block" where
  "addBlock_block digest now bc blk =
     (let b1 = blk\<lparr>block.height := height bc + 1\<rparr>;
          b2 = b1\<lparr>time := slice0 (toString now) 3\<rparr>;
          b3 = (if length (chain bc) > 0
                then b2\<lparr>previousBlockHash := hash (chain bc ! (length (chain bc) - 1))\<rparr>
                else b2)
      in b3\<lparr>hash := Some (digest b3)\<rparr>)"

text \<open>
  \<^verbatim>\<open>_addBlock\<close>: the promise rejects with the error and the state is as before, or it
  resolves with the block and the state holds it as the new tail.
\<close>

definition addBlock ::
  "(block \<Rightarrow> string) \<Rightarrow> nat \<Rightarrow> blockchain \<Rightarrow> block \<Rightarrow> (error + block) \<times> blockchain" where
  "addBlock digest now bc blk =
     (let b = addBlock_block digest now bc blk;
          validateChain_result = validateChain digest (chain bc)
      in if length validateChain_result > 0
         then (Inl (Error ''Block could not be added to chain - invalid block''), bc)
         else (Inr b, bc\<lparr>chain := chain bc @ [b], height := block.height b\<rparr>))"

definition initializeChain ::
  "(block \<Rightarrow> string) \<Rightarrow> ('s bdata \<Rightarrow> string) \<Rightarrow> nat \<Rightarrow> blockchain \<Rightarrow> blockchain" where
  "initializeChain digest encode now bc =
     (if height bc = - 1
      then snd (addBlock digest now bc (Block encode (Genesis_data ''Genesis Block'')))
      else bc)"

subsection \<open>Challenges and claims\<close>

definition requestMessageOwnershipVerification :: "nat \<Rightarrow> string \<Rightarrow> string" where
  "requestMessageOwnershipVerification now address =
     address @ '':'' @ slice0 (toString now) 3 @ '':starRegistry''"

text \<open>
  \<^verbatim>\<open>s.split(c)\<close> for a one-character separator: the fields between the separators, one
  field (the whole text) when there is none.
\<close>

fun split :: "char \<Rightarrow> string \<Rightarrow> string list" where
  "split c [] = [[]]"
| "split c (x # xs) =
     (if x = c then [] # split c xs
      else (case split c xs of [] \<Rightarrow> [[x]] | w # ws \<Rightarrow> (x # w) # ws))"

text \<open>
  \<^verbatim>\<open>parseInt\<close> with no radix: leading white space is skipped, one sign is read, a prefix
  \<^verbatim>\<open>0x\<close> or \<^verbatim>\<open>0X\<close> selects radix 16, the longest run of digits is the value, and no digit
  at all is \<^verbatim>\<open>NaN\<close>. Characters are bytes here, so only the ASCII white space is skipped
  (the builtin also skips the white space beyond ASCII), and the value is the exact
  integer (the builtin rounds it to a double above \<open>2 ^ 53\<close>).
\<close>

definition isWhiteSpace :: "char \<Rightarrow> bool" where
  "isWhiteSpace c = (c \<in> set [CHR '' '', CHR 0x09, CHR 0x0A, CHR 0x0B, CHR 0x0C, CHR 0x0D])"

definition digitValue :: "char \<Rightarrow> nat option" where
  "digitValue c =
     (let k = (of_char c :: nat)
      in if 48 \<le> k \<and> k \<le> 57 then Some (k - 48)
         else if 97 \<le> k \<and> k \<le> 102 then Some (k - 87)
         else if 65 \<le> k \<and> k \<le> 70 then Some (k - 55)
         else None)"

definition isDigit :: "nat \<Rightarrow> char \<Rightarrow> bool" where
  "isDigit R c = (case digitValue c of None \<Rightarrow> False | Some v \<Rightarrow> v < R)"

definition digitsValue :: "nat \<Rightarrow> string \<Rightarrow> nat" where
  "digitsValue R Z = foldl (\<lambda>acc c. acc * R + (case digitValue c of None \<Rightarrow> 0 | Some v \<Rightarrow> v)) 0 Z"

definition parseInt :: "string \<Rightarrow> int option" where
  "parseInt inputString =
     (let S = dropWhile isWhiteSpace inputString;
          sign = (if take 1 S = ''-'' then - 1 else (1::int));
          S1 = (if take 1 S = ''+'' \<or> take 1 S = ''-'' then drop 1 S else S);
          R = (if take 2 S1 = ''0x'' \<or> take 2 S1 = ''0X'' then 16 else (10::nat));
          S2 = (if R = 16 then drop 2 S1 else S1);
          Z = takeWhile (isDigit R) S2
      in if Z = [] then None else Some (sign * int (digitsValue R Z)))"

text \<open>A character that is one of the ten decimal digits.\<close>

definition plain_digit :: "char \<Rightarrow> bool" where
  "plain_digit c = (\<exists>d<10. c = digit_char d)"

text \<open>
  \<^verbatim>\<open>message.split(':')[1]\<close> is \<^verbatim>\<open>undefined\<close> when the message has no colon, and
  \<^verbatim>\<open>parseInt(undefined)\<close> parses the text \<^verbatim>\<open>undefined\<close>.
\<close>

definition messageTime :: "string \<Rightarrow> int option" where
  "messageTime message =
     (let fields = split CHR '':'' message
      in parseInt (if 1 < length fields then fields ! 1 else ''undefined''))"

text \<open>
  A comparison with \<^verbatim>\<open>NaN\<close> on either side is false. The numbers are exact integers
  here; the code compares doubles, which agree with them below \<open>2 ^ 53\<close>.
\<close>

definition elapsedExceeds :: "int option \<Rightarrow> int option \<Rightarrow> int \<Rightarrow> bool" where
  "elapsedExceeds curTime msgTime limit =
     (case (curTime, msgTime) of (Some c, Some m) \<Rightarrow> c - m > limit | _ \<Rightarrow> False)"

text \<open>
  A promise keeps the first outcome it is given: a later \<^verbatim>\<open>reject\<close> or \<^verbatim>\<open>resolve\<close> has no
  effect, and the code after a \<^verbatim>\<open>reject\<close> call still runs.
\<close>

definition settle :: "'a option \<Rightarrow> 'a \<Rightarrow> 'a option" where
  "settle p x = (case p of None \<Rightarrow> Some x | Some y \<Rightarrow> Some y)"

text \<open>
  \<^verbatim>\<open>submitStar\<close>, statement by statement. \<open>verify\<close> stands for \<^verbatim>\<open>bitcoinMessage.verify\<close>
  (\<open>None\<close> when it throws). The call \<^verbatim>\<open>this._addBlock(newBlock)\<close> is not awaited and its
  outcome is dropped; the promise of \<^verbatim>\<open>submitStar\<close> is given the block object, which
  \<^verbatim>\<open>_addBlock\<close> has sealed by then. The state returned is the one after this call's own
  append has resumed with no other call in between; appends that overlap are modelled
  in the subsection on appends in flight.
\<close>

definition submitStar ::
  "(block \<Rightarrow> string) \<Rightarrow> ('s bdata \<Rightarrow> string) \<Rightarrow> (string \<Rightarrow> string \<Rightarrow> string \<Rightarrow> bool option) \<Rightarrow>
   nat \<Rightarrow> blockchain \<Rightarrow> string \<Rightarrow> string \<Rightarrow> string \<Rightarrow> 's \<Rightarrow> (error + block) \<times> blockchain" where
  "submitStar digest encode verify now bc address message signature star =
     (let msgTime = messageTime message;
          curTime = parseInt (slice0 (toString now) 3);
          p1 = (if elapsedExceeds curTime msgTime 30000000000000000000000000000
                then settle None (Inl (Error ''ERROR - 5 minutes or more have passed.''))
                else None);
          p2 = (case verify message address signature of
                  None \<Rightarrow> settle p1 (Inl VerifyThrown)
                | Some v \<Rightarrow> p1);
          verified = (case verify message address signature of None \<Rightarrow> False | Some v \<Rightarrow> v);
          p3 = (if \<not> verified
                then settle p2 (Inl (Error ''ERROR - Message with wallet address invalid''))
                else p2);
          newBlock = Block encode (Star_data address star);
          bc' = snd (addBlock digest now bc newBlock);
          p4 = settle p3 (Inr (addBlock_block digest now bc newBlock))
      in (case p4 of Some outcome \<Rightarrow> outcome
          | None \<Rightarrow> Inr (addBlock_block digest now bc newBlock), bc'))"

subsection \<open>Stars of an owner\<close>

text \<open>
  The loop of \<^verbatim>\<open>getStarsByWalletAddress\<close> with its accumulator \<^verbatim>\<open>stars\<close>. When \<^verbatim>\<open>getBData\<close>
  fails inside the executor the promise is never settled: the result is \<open>None\<close>.
  A payload without an owner field (the Genesis payload) has \<^verbatim>\<open>data.owner\<close> undefined,
  which equals no address.
\<close>

fun getStars_loop ::
  "(string \<Rightarrow> 's bdata option) \<Rightarrow> string \<Rightarrow> block list \<Rightarrow> 's list \<Rightarrow> 's list option" where
  "getStars_loop decode address [] stars = Some stars"
| "getStars_loop decode address (blk # rest) stars =
     (if block.height blk > 0 then
        (case getBData decode blk of
           None \<Rightarrow> None
         | Some (Star_data owner star) \<Rightarrow>
             if owner = address then getStars_loop decode address rest (stars @ [star])
             else getStars_loop decode address rest stars
         | Some (Genesis_data d) \<Rightarrow> getStars_loop decode address rest stars)
      else getStars_loop decode address rest stars)"

definition getStarsByWalletAddress ::
  "(string \<Rightarrow> 's bdata option) \<Rightarrow> blockchain \<Rightarrow> string \<Rightarrow> 's list option" where
  "getStarsByWalletAddress decode bc address = getStars_loop decode address (chain bc) []"

subsection \<open>Appends in flight\<close>

text \<open>
  \<^verbatim>\<open>_addBlock\<close> runs up to its \<^verbatim>\<open>await\<close> when it is called: it seals the block from the
  height counter and the tail it reads then, and starts the audit. It pushes the block
  and writes the counter only when it resumes, after whatever ran in between.
  \<^verbatim>\<open>submitStar\<close> does not await \<^verbatim>\<open>_addBlock\<close> and the constructor does not await
  \<^verbatim>\<open>initializeChain\<close>, so a caller can make its next call while an append is suspended.
  A node is the chain object together with the suspended appends, each with its sealed
  block and the length of the chain when its audit began.
\<close>

record node =
  committed :: blockchain
  inflight :: "(block \<times> nat) list"

text \<open>The part of \<^verbatim>\<open>_addBlock\<close> before its \<^verbatim>\<open>await\<close>.\<close>

definition suspend_addBlock :: "(block \<Rightarrow> string) \<Rightarrow> nat \<Rightarrow> node \<Rightarrow> block \<Rightarrow> node" where
  "suspend_addBlock digest now nd blk =
     nd\<lparr>inflight := inflight nd @
          [(addBlock_block digest now (committed nd) blk, length (chain (committed nd)))]\<rparr>"

text \<open>
  The part of \<^verbatim>\<open>_addBlock\<close> after its \<^verbatim>\<open>await\<close>, for the suspended append number \<open>k\<close>. Its
  audit has visited the blocks below \<open>n\<close>: at least those present when it began, at
  most those present now (a \<^verbatim>\<open>for (idx in chain)\<close> may or may not visit an element pushed
  while it runs). Committed blocks are never written again, so the audit of these
  blocks is \<open>validateChain\<close> of the first \<open>n\<close> blocks. \<open>None\<close> when there is no such append
  or \<open>n\<close> is outside these bounds.
\<close>

definition resume_addBlock :: "(block \<Rightarrow> string) \<Rightarrow> node \<Rightarrow> nat \<Rightarrow> nat \<Rightarrow> node option" where
  "resume_addBlock digest nd k n =
     (if k < length (inflight nd) \<and> snd (inflight nd ! k) \<le> n \<and>
         n \<le> length (chain (committed nd))
      then
        let b = fst (inflight nd ! k);
            bc = committed nd;
            others = take k (inflight nd) @ drop (Suc k) (inflight nd);
            validateChain_result = validateChain digest (take n (chain bc))
        in if length validateChain_result > 0
           then Some \<lparr>committed = bc, inflight = others\<rparr>
           else Some \<lparr>committed = bc\<lparr>chain := chain bc @ [b], height := block.height b\<rparr>,
                      inflight = others\<rparr>
      else None)"

text \<open>
  The constructor: the fields, then \<^verbatim>\<open>initializeChain\<close>, which is not awaited; its append
  of the Genesis block is suspended when the constructor returns.
\<close>

definition new_Blockchain :: "(block \<Rightarrow> string) \<Rightarrow> ('s bdata \<Rightarrow> string) \<Rightarrow> nat \<Rightarrow> node" where
  "new_Blockchain digest encode now =
     (let nd = \<lparr>committed = Blockchain, inflight = []\<rparr>
      in if height (committed nd) = - 1
         then suspend_addBlock digest now nd (Block encode (Genesis_data ''Genesis Block''))
         else nd)"

text \<open>
  A call of \<^verbatim>\<open>submitStar\<close>: what its promise is given, and the node when the call
  returns, with the append of the new block suspended.
\<close>

definition call_submitStar ::
  "(block \<Rightarrow> string) \<Rightarrow> ('s bdata \<Rightarrow> string) \<Rightarrow> (string \<Rightarrow> string \<Rightarrow> string \<Rightarrow> bool option) \<Rightarrow>
   nat \<Rightarrow> node \<Rightarrow> string \<Rightarrow> string \<Rightarrow> string \<Rightarrow> 's \<Rightarrow> (error + block) \<times> node" where
  "call_submitStar digest encode verify now nd address message signature star =
     (fst (submitStar digest encode verify now (committed nd) address message signature star),
      suspend_addBlock digest now nd (Block encode (Star_data address star)))"

text \<open>A run of a node: calls of \<^verbatim>\<open>submitStar\<close> and resumptions of suspended appends.\<close>

datatype 's event = Submit nat string string string 's | Resume nat nat

fun step ::
  "(block \<Rightarrow> string) \<Rightarrow> ('s bdata \<Rightarrow> string) \<Rightarrow> (string \<Rightarrow> string \<Rightarrow> string \<Rightarrow> bool option) \<Rightarrow>
   node \<Rightarrow> 's event \<Rightarrow> node option" where
  "step digest encode verify nd (Submit now address message signature star) =
     Some (snd (call_submitStar digest encode verify now nd address message signature star))"
| "step digest encode verify nd (Resume k n) = resume_addBlock digest nd k n"

fun run ::
  "(block \<Rightarrow> string) \<Rightarrow> ('s bdata \<Rightarrow> string) \<Rightarrow> (string \<Rightarrow> string \<Rightarrow> string \<Rightarrow> bool option) \<Rightarrow>
   node \<Rightarrow> 's event list \<Rightarrow> node option" where
  "run digest encode verify nd [] = Some nd"
| "run digest encode verify nd (e # es) =
     (case step digest encode verify nd e of
        None \<Rightarrow> None
      | Some nd' \<Rightarrow> run digest encode verify nd' es)"

subsection \<open>Reachable states\<close>

text \<open>
  The nodes a program can bring about: the constructor's, and those after a call of
  \<^verbatim>\<open>submitStar\<close> or the resumption of a suspended append, in any order.
\<close>

inductive reachable ::
  "(block \<Rightarrow> string) \<Rightarrow> ('s bdata \<Rightarrow> string) \<Rightarrow> (string \<Rightarrow> string \<Rightarrow> string \<Rightarrow> bool option) \<Rightarrow>
   node \<Rightarrow> bool"
  for digest :: "block \<Rightarrow> string" and encode :: "'s bdata \<Rightarrow> string"
    and verify :: "string \<Rightarrow> string \<Rightarrow> string \<Rightarrow> bool option" where
  created: "reachable digest encode verify (new_Blockchain digest encode now)"
| called: "reachable digest encode verify nd \<Longrightarrow>
     reachable digest encode verify
       (snd (call_submitStar digest encode verify now nd address message signature star))"
| resumed: "reachable digest encode verify nd \<Longrightarrow> resume_addBlock digest nd k n = Some nd' \<Longrightarrow>
     reachable digest encode verify nd'"

text \<open>
  The states of a chain object when no two appends overlap, each call having resumed
  and committed before the next one is made: the exclusion that the specification
  asks of an implementation.
\<close>

inductive serial ::
  "(block \<Rightarrow> string) \<Rightarrow> ('s bdata \<Rightarrow> string) \<Rightarrow> (string \<Rightarrow> string \<Rightarrow> string \<Rightarrow> bool option) \<Rightarrow>
   blockchain \<Rightarrow> bool"
  for digest :: "block \<Rightarrow> string" and encode :: "'s bdata \<Rightarrow> string"
    and verify :: "string \<Rightarrow> string \<Rightarrow> string \<Rightarrow> bool option" where
  constructed: "serial digest encode verify Blockchain"
| initialized: "serial digest encode verify bc \<Longrightarrow>
     serial digest encode verify (initializeChain digest encode now bc)"
| submitted: "serial digest encode verify bc \<Longrightarrow>
     serial digest encode verify
       (snd (submitStar digest encode verify now bc address message signature star))"
| appended: "serial digest encode verify bc \<Longrightarrow>
     serial digest encode verify (snd (addBlock digest now bc (Block encode d)))"

section \<open>The specification's words\<close>

text \<open>
  The audit as the specification describes it: for every block in ascending order, an
  error when its self-check fails, then, for a block after the first, an error when
  its previous hash is not the hash of the block before it; all errors, in this order.
\<close>

definition blockErrors :: "(block \<Rightarrow> string) \<Rightarrow> block list \<Rightarrow> nat \<Rightarrow> error list" where
  "blockErrors digest ch i =
     (if validate digest (ch ! i) then [] else [Error ''Block not valid'']) @
     (if 0 < i \<and> previousBlockHash (ch ! i) \<noteq> hash (ch ! (i - 1))
      then [Error ''Incompatible previous hash''] else [])"

definition walkAndValidate :: "(block \<Rightarrow> string) \<Rightarrow> block list \<Rightarrow> error list" where
  "walkAndValidate digest ch = concat (map (blockErrors digest ch) [0..<length ch])"

text \<open>
  The stars of an owner as the specification describes them: of the blocks above
  height 0, in chain order, the decoded star of each block whose decoded owner is the
  address.
\<close>

definition ownedStar :: "(string \<Rightarrow> 's bdata option) \<Rightarrow> string \<Rightarrow> block \<Rightarrow> 's option" where
  "ownedStar decode address b =
     (if block.height b > 0 then
        (case getBData decode b of
           Some (Star_data owner star) \<Rightarrow> if owner = address then Some star else None
         | _ \<Rightarrow> None)
      else None)"

definition starsByOwner :: "(string \<Rightarrow> 's bdata option) \<Rightarrow> block list \<Rightarrow> string \<Rightarrow> 's list" where
  "starsByOwner decode ch address = List.map_filter (ownedStar decode address) ch"

definition decodable :: "(string \<Rightarrow> 's bdata option) \<Rightarrow> block \<Rightarrow> bool" where
  "decodable decode b = (block.height b \<le> 0 \<or> getBData decode b \<noteq> None)"

text \<open>
  The invariant of the chain: the height counter is the last index, every block sits
  at the index that is its height, no block has an error in the audit, and the first
  block has no previous hash.
\<close>

definition chain_ok :: "(block \<Rightarrow> string) \<Rightarrow> blockchain \<Rightarrow> bool" where
  "chain_ok digest bc \<longleftrightarrow>
     height bc = int (length (chain bc)) - 1 \<and>
     (\<forall>i<length (chain bc). block.height (chain bc ! i) = int i) \<and>
     (\<forall>i<length (chain bc). blockErrors digest (chain bc) i = []) \<and>
     (chain bc \<noteq> [] \<longrightarrow> previousBlockHash (chain bc ! 0) = None)"

text \<open>
  What overlapping appends keep: the counter is -1 on the empty chain and otherwise
  the height of the last block; no height is negative; a block of height 0, committed
  or in flight, has no previous hash; a block of a greater height has as previous
  hash the hash of a committed block whose height is one less.
\<close>

definition linked_to :: "block list \<Rightarrow> block \<Rightarrow> bool" where
  "linked_to ch b =
     (0 \<le> block.height b \<and>
      (if block.height b = 0 then previousBlockHash b = None
       else \<exists>p\<in>set ch. block.height p = block.height b - 1 \<and> previousBlockHash b = hash p))"

definition node_ok :: "node \<Rightarrow> bool" where
  "node_ok nd =
     ((if chain (committed nd) = [] then height (committed nd) = - 1
       else height (committed nd) = block.height (last (chain (committed nd)))) \<and>
      list_all (linked_to (chain (committed nd))) (chain (committed nd)) \<and>
      list_all (linked_to (chain (committed nd))) (map fst (inflight nd)))"

section \<open>Instances for the closed examples\<close>

text \<open>
  The library functions are parameters of the model. The closed examples below
  instantiate them with small stand-ins: a digest that writes the fields out (so it
  has no collisions), a textual encoding of the payload with its decoding, and a
  verification that accepts one signature text per address and message and throws on
  an empty signature.
\<close>

definition stringify :: "block \<Rightarrow> string" where
  "stringify b =
     (case hash b of None \<Rightarrow> ''null'' | Some h \<Rightarrow> h) @ '','' @
     toString (nat (block.height b)) @ '','' @ body b @ '','' @ time b @ '','' @
     (case previousBlockHash b of None \<Rightarrow> ''null'' | Some h \<Rightarrow> h)"

definition encode_text :: "string bdata \<Rightarrow> string" where
  "encode_text d =
     (case d of Genesis_data s \<Rightarrow> CHR ''G'' # s | Star_data a s \<Rightarrow> CHR ''S'' # a @ ''|'' @ s)"

definition decode_text :: "string \<Rightarrow> string bdata option" where
  "decode_text s =
     (case s of
        [] \<Rightarrow> None
      | c # r \<Rightarrow>
          if c = CHR ''G'' then Some (Genesis_data r)
          else if c = CHR ''S'' \<and> CHR ''|'' \<in> set r
          then Some (Star_data (takeWhile (\<lambda>x. x \<noteq> CHR ''|'') r)
                       (drop 1 (dropWhile (\<lambda>x. x \<noteq> CHR ''|'') r)))
          else None)"

definition verify_text :: "string \<Rightarrow> string \<Rightarrow> string \<Rightarrow> bool option" where
  "verify_text message address signature =
     (if signature = [] then None
      else Some (signature = ''signed:'' @ address @ ''/'' @ message))"

text \<open>A chain holding the Genesis block, and the same chain after one claim.\<close>

definition genesis_chain :: blockchain where
  "genesis_chain = initializeChain stringify encode_text 1600000000000 Blockchain"

definition star_chain :: blockchain where
  "star_chain =
     snd (submitStar stringify encode_text verify_text 1600000001000 genesis_chain ''1xyz''
            ''1xyz:1600000000:starRegistry'' ''signed:1xyz/1xyz:1600000000:starRegistry''
            ''16h 29m 1.0s'')"

text \<open>
  Two runs of a node. In the first, the Genesis block is committed, two claims are
  submitted one after the other, each awaited by the caller, a millisecond apart, and
  then the two suspended appends resume: the promise of \<^verbatim>\<open>submitStar\<close> is resolved before
  its append has resumed, so the second call is made first. In the second, a claim is
  submitted right after the constructor returns, before the append of the Genesis
  block has resumed.
\<close>

definition overlapping_run :: "node option" where
  "overlapping_run =
     run stringify encode_text verify_text (new_Blockchain stringify encode_text 1600000000000)
       [Resume 0 0,
        Submit 1600000001000 ''1xyz'' ''1xyz:1600000000:starRegistry''
          ''signed:1xyz/1xyz:1600000000:starRegistry'' ''16h 29m 1.0s'',
        Submit 1600000001001 ''1xyz'' ''1xyz:1600000000:starRegistry''
          ''signed:1xyz/1xyz:1600000000:starRegistry'' ''18h 01m 2.0s'',
        Resume 0 1,
        Resume 0 1]"

definition early_run :: "node option" where
  "early_run =
     run stringify encode_text verify_text (new_Blockchain stringify encode_text 1600000000000)
       [Submit 1600000000000 ''1xyz'' ''1xyz:1600000000:starRegistry''
          ''signed:1xyz/1xyz:1600000000:starRegistry'' ''16h 29m 1.0s'',
        Resume 0 0,
        Resume 0 0]"

text \<open>The chain after one claim, with the body of the claim's block overwritten.\<close>

definition tampered_chain :: blockchain where
  "tampered_chain = star_chain\<lparr>chain := (chain star_chain)[1 := (chain star_chain ! 1)\<lparr>body := ''S1abc|16h 29m 1.0s''\<rparr>]\<rparr>"

section \<open>The audit loop\<close>

lemma validateChain_loop_eq:
  "validateChain_loop digest ch idx errorLog =
     errorLog @ concat (map (blockErrors digest ch) [idx..<length ch])"
proof (induction "length ch - idx" arbitrary: idx errorLog)
  case 0
  then show ?case by (simp add: validateChain_loop.simps)
next
  case (Suc n)
  then have lt: "idx < length ch" and n: "n = length ch - Suc idx" by simp_all
  have step: "[idx..<length ch] = idx # [Suc idx..<length ch]"
    using lt by (simp add: upt_conv_Cons)
  have ih: "validateChain_loop digest ch (Suc idx) log =
      log @ concat (map (blockErrors digest ch) [Suc idx..<length ch])" for log
    using Suc.hyps(1) [OF n] .
  show ?case
    using lt by (subst validateChain_loop.simps) (simp add: ih step blockErrors_def Let_def)
qed

lemma validateChain_walk: "validateChain digest ch = walkAndValidate digest ch"
  by (simp add: validateChain_def walkAndValidate_def validateChain_loop_eq)

lemma validateChain_Nil_iff:
  "validateChain digest ch = [] \<longleftrightarrow> (\<forall>i<length ch. blockErrors digest ch i = [])"
  by (auto simp: validateChain_walk walkAndValidate_def)

lemma blockErrors_Nil_iff:
  "blockErrors digest ch i = [] \<longleftrightarrow>
     validate digest (ch ! i) \<and> (0 < i \<longrightarrow> previousBlockHash (ch ! i) = hash (ch ! (i - 1)))"
  by (auto simp: blockErrors_def)

section \<open>The invariant when appends do not overlap\<close>

lemma blockErrors_append:
  "i < length ch \<Longrightarrow> blockErrors digest (ch @ [b]) i = blockErrors digest ch i"
proof -
  assume lt: "i < length ch"
  then have "i - 1 < length ch" by simp
  with lt show ?thesis by (simp add: blockErrors_def nth_append)
qed

lemma hash_reset: "hash b = None \<Longrightarrow> b\<lparr>hash := None\<rparr> = b"
  by (cases b) simp

lemma addBlock_block_fields:
  "block.height (addBlock_block digest now bc blk) = height bc + 1"
  "body (addBlock_block digest now bc blk) = body blk"
  "previousBlockHash (addBlock_block digest now bc blk) =
     (if chain bc = [] then previousBlockHash blk else hash (last (chain bc)))"
  by (simp_all add: addBlock_block_def Let_def last_conv_nth)

lemma addBlock_block_valid:
  "hash blk = None \<Longrightarrow> validate digest (addBlock_block digest now bc blk)"
  by (simp add: addBlock_block_def validate_def Let_def hash_reset)

lemma chain_ok_valid: "chain_ok digest bc \<Longrightarrow> validateChain digest (chain bc) = []"
  by (simp add: chain_ok_def validateChain_Nil_iff)

lemma addBlock_ok:
  "validateChain digest (chain bc) = [] \<Longrightarrow>
     addBlock digest now bc blk =
       (Inr (addBlock_block digest now bc blk),
        bc\<lparr>chain := chain bc @ [addBlock_block digest now bc blk],
           height := height bc + 1\<rparr>)"
  by (simp add: addBlock_def Let_def addBlock_block_fields)

lemma addBlock_fresh:
  assumes ok: "chain_ok digest bc" and h: "hash blk = None" and p: "previousBlockHash blk = None"
  shows "chain_ok digest (snd (addBlock digest now bc blk))"
proof -
  let ?b = "addBlock_block digest now bc blk"
  let ?ch = "chain bc @ [?b]"
  have eq: "snd (addBlock digest now bc blk) = bc\<lparr>chain := ?ch, height := height bc + 1\<rparr>"
    using addBlock_ok [OF chain_ok_valid [OF ok]] by simp
  have hb: "height bc = int (length (chain bc)) - 1"
    and hs: "\<And>i. i < length (chain bc) \<Longrightarrow> block.height (chain bc ! i) = int i"
    and es: "\<And>i. i < length (chain bc) \<Longrightarrow> blockErrors digest (chain bc) i = []"
    and g: "chain bc \<noteq> [] \<Longrightarrow> previousBlockHash (chain bc ! 0) = None"
    using ok by (simp_all add: chain_ok_def)
  have heights: "block.height (?ch ! i) = int i" if "i < length ?ch" for i
    using that hs hb by (cases "i < length (chain bc)") (simp_all add: nth_append addBlock_block_fields)
  have last_err: "blockErrors digest ?ch (length (chain bc)) = []"
    using addBlock_block_valid [OF h, of digest now bc]
    by (simp add: blockErrors_Nil_iff nth_append addBlock_block_fields last_conv_nth)
  have errs: "blockErrors digest ?ch i = []" if "i < length ?ch" for i
  proof (cases "i < length (chain bc)")
    case True
    then show ?thesis by (simp add: blockErrors_append es)
  next
    case False
    with that have "i = length (chain bc)" by simp
    then show ?thesis using last_err by simp
  qed
  have gen: "previousBlockHash (?ch ! 0) = None"
    using g p by (cases "chain bc = []") (simp_all add: nth_append addBlock_block_fields)
  show ?thesis
    unfolding eq chain_ok_def using hb heights errs gen by simp
qed

lemma Block_fresh: "hash (Block encode d) = None" "previousBlockHash (Block encode d) = None"
  by (simp_all add: Block_def)

lemma submitStar_snd:
  "snd (submitStar digest encode verify now bc address message signature star) =
     snd (addBlock digest now bc (Block encode (Star_data address star)))"
  by (simp add: submitStar_def Let_def)

lemma serial_ok: "serial digest encode verify bc \<Longrightarrow> chain_ok digest bc"
proof (induction rule: serial.induct)
  case constructed
  then show ?case by (simp add: chain_ok_def Blockchain_def)
next
  case (initialized bc now)
  then show ?case by (simp add: initializeChain_def addBlock_fresh Block_fresh)
next
  case (submitted bc now address message signature star)
  then show ?case by (simp add: submitStar_snd addBlock_fresh Block_fresh)
next
  case (appended bc now d)
  then show ?case by (simp add: addBlock_fresh Block_fresh)
qed

section \<open>The examples, evaluated\<close>

lemmas eval_defs = toString.simps digit_char_def slice0_def parseInt_def isWhiteSpace_def
  isDigit_def digitValue_def digitsValue_def messageTime_def elapsedExceeds_def settle_def
  stringify_def encode_text_def decode_text_def verify_text_def Block_def Blockchain_def
  addBlock_def addBlock_block_def initializeChain_def submitStar_def validateChain_def
  validateChain_loop.simps validate_def Let_def getBData_def

lemma genesis_chain_eq:
  "genesis_chain =
     \<lparr>chain = [\<lparr>hash = Some ''null,0,GGenesis Block,1600000000,null'', height = 0,
                body = ''GGenesis Block'', time = ''1600000000'', previousBlockHash = None\<rparr>],
      height = 0\<rparr>"
  by (simp add: genesis_chain_def eval_defs)

lemma star_chain_eq:
  "star_chain =
     \<lparr>chain = [\<lparr>hash = Some ''null,0,GGenesis Block,1600000000,null'', height = 0,
                body = ''GGenesis Block'', time = ''1600000000'', previousBlockHash = None\<rparr>,
               \<lparr>hash = Some ''null,1,S1xyz|16h 29m 1.0s,1600000001,null,0,GGenesis Block,1600000000,null'',
                height = 1, body = ''S1xyz|16h 29m 1.0s'', time = ''1600000001'',
                previousBlockHash = Some ''null,0,GGenesis Block,1600000000,null''\<rparr>],
      height = 1\<rparr>"
  by (simp add: star_chain_def genesis_chain_eq eval_defs)

lemma tampered_chain_eq:
  "tampered_chain =
     \<lparr>chain = [\<lparr>hash = Some ''null,0,GGenesis Block,1600000000,null'', height = 0,
                body = ''GGenesis Block'', time = ''1600000000'', previousBlockHash = None\<rparr>,
               \<lparr>hash = Some ''null,1,S1xyz|16h 29m 1.0s,1600000001,null,0,GGenesis Block,1600000000,null'',
                height = 1, body = ''S1abc|16h 29m 1.0s'', time = ''1600000001'',
                previousBlockHash = Some ''null,0,GGenesis Block,1600000000,null''\<rparr>],
      height = 1\<rparr>"
  by (simp add: tampered_chain_def star_chain_eq)

section \<open>Linkage when appends do not overlap\<close>

text \<open>
  When every append commits before the next call is made, a block sits at the index
  that is its height and has a hash, every block after the first has as previous hash
  the hash of the block before it, and a block of height 0 has no previous hash.
\<close>

lemma serial_linked:
  assumes "serial digest encode verify bc"
  shows "(\<forall>i<length (chain bc). block.height (chain bc ! i) = int i \<and> hash (chain bc ! i) \<noteq> None) \<and>
         (\<forall>i<length (chain bc). 0 < i \<longrightarrow>
            previousBlockHash (chain bc ! i) = hash (chain bc ! (i - 1))) \<and>
         (\<forall>b\<in>set (chain bc). block.height b = 0 \<longrightarrow> previousBlockHash b = None)"
proof -
  have ok: "chain_ok digest bc" using assms by (rule serial_ok)
  then have hs: "\<And>i. i < length (chain bc) \<Longrightarrow> block.height (chain bc ! i) = int i"
    and es: "\<And>i. i < length (chain bc) \<Longrightarrow> blockErrors digest (chain bc) i = []"
    and g: "chain bc \<noteq> [] \<Longrightarrow> previousBlockHash (chain bc ! 0) = None"
    by (simp_all add: chain_ok_def)
  have a: "\<forall>i<length (chain bc). block.height (chain bc ! i) = int i \<and> hash (chain bc ! i) \<noteq> None"
    using hs es by (auto simp: blockErrors_Nil_iff validate_def)
  have b: "\<forall>i<length (chain bc). 0 < i \<longrightarrow>
      previousBlockHash (chain bc ! i) = hash (chain bc ! (i - 1))"
    using es by (simp add: blockErrors_Nil_iff)
  have c: "\<forall>b\<in>set (chain bc). block.height b = 0 \<longrightarrow> previousBlockHash b = None"
  proof (intro ballI impI)
    fix b assume "b \<in> set (chain bc)" and z: "block.height b = 0"
    then obtain i where i: "i < length (chain bc)" and b: "b = chain bc ! i"
      by (auto simp: in_set_conv_nth)
    with z hs have "i = 0" by simp
    with i b g show "previousBlockHash b = None" by auto
  qed
  from a b c show ?thesis by blast
qed

section \<open>Append\<close>



text \<open>
  C5. When validating the existing chain reports any error, the append fails with the
  error of a refused block and the state is exactly the one before the call.
\<close>

theorem addBlock_corrupt:
  "validateChain digest (chain bc) \<noteq> [] \<Longrightarrow>
     addBlock digest now bc blk =
       (Inl (Error ''Block could not be added to chain - invalid block''), bc)"
  by (simp add: addBlock_def Let_def)

theorem addBlock_corrupt_witness:
  "validateChain stringify (chain tampered_chain) = [Error ''Block not valid''] \<and>
   addBlock stringify 1600000002000 tampered_chain
     (Block encode_text (Star_data ''1xyz'' ''18h 01m 2.0s'')) =
     (Inl (Error ''Block could not be added to chain - invalid block''), tampered_chain)"
proof -
  have v: "validateChain stringify (chain tampered_chain) = [Error ''Block not valid'']"
    by (simp add: tampered_chain_eq eval_defs)
  then have h: "validateChain stringify (chain tampered_chain) \<noteq> []" by simp
  show ?thesis using v addBlock_corrupt [OF h] by simp
qed

section \<open>The height counter when appends do not overlap\<close>

text \<open>
  When every append commits before the next call is made, the height read is -1
  exactly when the chain is empty, and otherwise it is the height of the last block,
  which is the length of the chain minus one.
\<close>

lemma serial_height:
  assumes "serial digest encode verify bc"
  shows "(getChainHeight bc = - 1 \<longleftrightarrow> chain bc = []) \<and>
         (chain bc \<noteq> [] \<longrightarrow>
            getChainHeight bc = block.height (last (chain bc)) \<and>
            getChainHeight bc = int (length (chain bc)) - 1)"
proof -
  have ok: "chain_ok digest bc" using assms by (rule serial_ok)
  then have hb: "height bc = int (length (chain bc)) - 1"
    and hs: "\<And>i. i < length (chain bc) \<Longrightarrow> block.height (chain bc ! i) = int i"
    by (simp_all add: chain_ok_def)
  have "block.height (last (chain bc)) = int (length (chain bc)) - 1" if "chain bc \<noteq> []"
    using that hs [of "length (chain bc) - 1"]
    by (cases "chain bc" rule: rev_cases) (simp_all add: last_conv_nth)
  with hb show ?thesis by (auto simp: getChainHeight_def)
qed

section \<open>The audit of the chain\<close>

lemma concat_map_Nil: "(\<And>x. x \<in> set xs \<Longrightarrow> f x = []) \<Longrightarrow> concat (map f xs) = []"
  by (induction xs) simp_all

lemma upt_split: "i < n \<Longrightarrow> [0..<n] = [0..<i] @ i # [Suc i..<n]"
  using upt_add_eq_append [of 0 i "n - i"] by (simp add: upt_conv_Cons)

lemma walk_one:
  assumes "i < length ch" and "\<And>j. j < length ch \<Longrightarrow> j \<noteq> i \<Longrightarrow> blockErrors digest ch j = []"
  shows "walkAndValidate digest ch = blockErrors digest ch i"
proof -
  have a: "concat (map (blockErrors digest ch) [0..<i]) = []"
    using assms by (intro concat_map_Nil) auto
  have b: "concat (map (blockErrors digest ch) [Suc i..<length ch]) = []"
    using assms by (intro concat_map_Nil) auto
  show ?thesis
    by (simp add: walkAndValidate_def upt_split [OF assms(1)] a b)
qed

lemma walk_two:
  assumes "Suc i < length ch"
    and "\<And>j. j < length ch \<Longrightarrow> j \<noteq> i \<Longrightarrow> j \<noteq> Suc i \<Longrightarrow> blockErrors digest ch j = []"
  shows "walkAndValidate digest ch = blockErrors digest ch i @ blockErrors digest ch (Suc i)"
proof -
  have i: "i < length ch" using assms(1) by simp
  have a: "concat (map (blockErrors digest ch) [0..<i]) = []"
    using assms by (intro concat_map_Nil) auto
  have b: "concat (map (blockErrors digest ch) [Suc (Suc i)..<length ch]) = []"
    using assms by (intro concat_map_Nil) auto
  have s: "[Suc i..<length ch] = Suc i # [Suc (Suc i)..<length ch]"
    using assms(1) by (simp add: upt_conv_Cons)
  show ?thesis
    by (simp add: walkAndValidate_def upt_split [OF i] s a b)
qed

text \<open>Overwriting the body of block i leaves the errors of the other blocks as they were.\<close>

lemma blockErrors_body_other:
  assumes "j < length ch" and "j \<noteq> i"
  shows "blockErrors digest (ch[i := (ch ! i)\<lparr>body := v\<rparr>]) j = blockErrors digest ch j"
proof -
  have h: "hash ((ch[i := (ch ! i)\<lparr>body := v\<rparr>]) ! k) = hash (ch ! k)" if "k < length ch" for k
    using that by (cases "k = i") simp_all
  have "j - 1 < length ch" using assms(1) by simp
  then show ?thesis using assms by (simp add: blockErrors_def h)
qed

lemma blockErrors_body_self:
  assumes "i < length ch" and "blockErrors digest ch i = []"
    and "digest ((ch ! i)\<lparr>body := v, hash := None\<rparr>) \<noteq> digest ((ch ! i)\<lparr>hash := None\<rparr>)"
  shows "blockErrors digest (ch[i := (ch ! i)\<lparr>body := v\<rparr>]) i = [Error ''Block not valid'']"
proof -
  have h: "hash ((ch[i := (ch ! i)\<lparr>body := v\<rparr>]) ! k) = hash (ch ! k)" if "k < length ch" for k
    using that by (cases "k = i") simp_all
  have "i - 1 < length ch" using assms(1) by simp
  then show ?thesis
    using assms by (auto simp: blockErrors_def h validate_def split: if_splits)
qed

text \<open>
  C6. The audit loop returns every error of every block, in ascending order of the
  blocks and without stopping at a defect: it is the audit the specification words.
  It returns no error exactly when every block passes its self-check and every block
  after the first carries the hash of the block before it. When the chain is sound
  and the body of one block is overwritten, the stored hash kept, so that the
  recomputed digest differs, the audit returns exactly one error: the failed
  self-check of that block, and no error for any other block.
\<close>

theorem validateChain_complete:
  "validateChain digest ch = walkAndValidate digest ch \<and>
   (validateChain digest ch = [] \<longleftrightarrow>
      (\<forall>i<length ch. validate digest (ch ! i) \<and>
         (0 < i \<longrightarrow> previousBlockHash (ch ! i) = hash (ch ! (i - 1))))) \<and>
   (validateChain digest ch = [] \<and> i < length ch \<and>
    digest ((ch ! i)\<lparr>body := v, hash := None\<rparr>) \<noteq> digest ((ch ! i)\<lparr>hash := None\<rparr>) \<longrightarrow>
      validateChain digest (ch[i := (ch ! i)\<lparr>body := v\<rparr>]) = [Error ''Block not valid''] \<and>
      blockErrors digest (ch[i := (ch ! i)\<lparr>body := v\<rparr>]) i = [Error ''Block not valid''] \<and>
      (\<forall>j<length ch. j \<noteq> i \<longrightarrow> blockErrors digest (ch[i := (ch ! i)\<lparr>body := v\<rparr>]) j = []))"
proof (intro conjI impI)
  show "validateChain digest ch = walkAndValidate digest ch" by (rule validateChain_walk)
next
  show "validateChain digest ch = [] \<longleftrightarrow>
      (\<forall>i<length ch. validate digest (ch ! i) \<and>
         (0 < i \<longrightarrow> previousBlockHash (ch ! i) = hash (ch ! (i - 1))))"
    by (simp add: validateChain_Nil_iff blockErrors_Nil_iff)
next
  let ?ch = "ch[i := (ch ! i)\<lparr>body := v\<rparr>]"
  assume a: "validateChain digest ch = [] \<and> i < length ch \<and>
    digest ((ch ! i)\<lparr>body := v, hash := None\<rparr>) \<noteq> digest ((ch ! i)\<lparr>hash := None\<rparr>)"
  then have ok: "\<And>j. j < length ch \<Longrightarrow> blockErrors digest ch j = []" and i: "i < length ch"
    by (simp_all add: validateChain_Nil_iff)
  have self: "blockErrors digest ?ch i = [Error ''Block not valid'']"
    using a ok by (intro blockErrors_body_self) simp_all
  have other: "blockErrors digest ?ch j = []" if "j < length ch" "j \<noteq> i" for j
    using that ok by (simp add: blockErrors_body_other)
  show "blockErrors digest ?ch i = [Error ''Block not valid'']" by (rule self)
  show "\<forall>j<length ch. j \<noteq> i \<longrightarrow> blockErrors digest ?ch j = []" using other by simp
  have "walkAndValidate digest ?ch = blockErrors digest ?ch i"
    using i other by (intro walk_one) simp_all
  then show "validateChain digest ?ch = [Error ''Block not valid'']"
    by (simp add: validateChain_walk self)
qed

theorem validateChain_complete_witness:
  "validateChain stringify (chain star_chain) = [] \<and>
   validate stringify (chain star_chain ! 1) \<and>
   previousBlockHash (chain star_chain ! 1) = hash (chain star_chain ! 0) \<and>
   stringify ((chain star_chain ! 1)\<lparr>body := ''S1abc|16h 29m 1.0s'', hash := None\<rparr>) \<noteq>
     stringify ((chain star_chain ! 1)\<lparr>hash := None\<rparr>) \<and>
   validateChain stringify (chain tampered_chain) = [Error ''Block not valid''] \<and>
   blockErrors stringify (chain tampered_chain) 1 = [Error ''Block not valid''] \<and>
   blockErrors stringify (chain tampered_chain) 0 = []"
proof -
  have v: "validateChain stringify (chain star_chain) = []"
    by (simp add: star_chain_eq eval_defs)
  have d: "stringify ((chain star_chain ! 1)\<lparr>body := ''S1abc|16h 29m 1.0s'', hash := None\<rparr>) \<noteq>
      stringify ((chain star_chain ! 1)\<lparr>hash := None\<rparr>)"
    by (simp add: star_chain_eq eval_defs)
  have l: "(1::nat) < length (chain star_chain)" by (simp add: star_chain_eq)
  have t: "chain tampered_chain =
      (chain star_chain)[1 := (chain star_chain ! 1)\<lparr>body := ''S1abc|16h 29m 1.0s''\<rparr>]"
    by (simp add: tampered_chain_def)
  note T = validateChain_complete [of stringify "chain star_chain" 1 "''S1abc|16h 29m 1.0s''"]
  have r: "validateChain stringify (chain tampered_chain) = [Error ''Block not valid''] \<and>
      blockErrors stringify (chain tampered_chain) 1 = [Error ''Block not valid''] \<and>
      (\<forall>j<length (chain star_chain). j \<noteq> 1 \<longrightarrow> blockErrors stringify (chain tampered_chain) j = [])"
    using T v l d unfolding t by blast
  have z: "blockErrors stringify (chain tampered_chain) 0 = []"
  proof -
    have "(0::nat) < length (chain star_chain)" and "(0::nat) \<noteq> 1"
      by (simp_all add: star_chain_eq)
    with r show ?thesis by blast
  qed
  have a: "\<forall>i<length (chain star_chain). validate stringify (chain star_chain ! i) \<and>
      (0 < i \<longrightarrow> previousBlockHash (chain star_chain ! i) = hash (chain star_chain ! (i - 1)))"
    using T v by blast
  have b: "validate stringify (chain star_chain ! 1) \<and>
      previousBlockHash (chain star_chain ! 1) = hash (chain star_chain ! 0)"
    using a l by force
  show ?thesis using v d r z b by simp
qed

text \<open>Overwriting the stored hash of block i.\<close>

lemma blockErrors_hash_other:
  assumes "j < length ch" and "j \<noteq> i" and "j \<noteq> Suc i"
  shows "blockErrors digest (ch[i := (ch ! i)\<lparr>hash := h\<rparr>]) j = blockErrors digest ch j"
proof -
  have "j - 1 < length ch" and "0 < j \<Longrightarrow> j - 1 \<noteq> i" using assms by auto
  then show ?thesis using assms by (auto simp: blockErrors_def)
qed

text \<open>
  C9. When the chain is sound and the stored hash of a block that has a successor is
  replaced by another value, the other fields kept, the audit returns exactly two
  errors: the failed self-check of that block, then the broken link of its successor.
\<close>

theorem altered_hash_two_errors:
  assumes v: "validateChain digest ch = []" and i: "Suc i < length ch"
    and h: "h \<noteq> hash (ch ! i)"
  shows "validateChain digest (ch[i := (ch ! i)\<lparr>hash := h\<rparr>]) =
           [Error ''Block not valid'', Error ''Incompatible previous hash''] \<and>
         blockErrors digest (ch[i := (ch ! i)\<lparr>hash := h\<rparr>]) i = [Error ''Block not valid''] \<and>
         blockErrors digest (ch[i := (ch ! i)\<lparr>hash := h\<rparr>]) (Suc i) =
           [Error ''Incompatible previous hash'']"
proof -
  let ?ch = "ch[i := (ch ! i)\<lparr>hash := h\<rparr>]"
  have ok: "\<And>j. j < length ch \<Longrightarrow> blockErrors digest ch j = []"
    using v by (simp add: validateChain_Nil_iff)
  have il: "i < length ch" using i by simp
  have oi: "blockErrors digest ch i = []" and os: "blockErrors digest ch (Suc i) = []"
    using ok il i by simp_all
  have "i - 1 < length ch" using il by simp
  moreover have "i - 1 \<noteq> i \<or> i = 0" by auto
  ultimately have self: "blockErrors digest ?ch i = [Error ''Block not valid'']"
    using oi il h by (auto simp: blockErrors_def validate_def split: if_splits)
  have succ: "blockErrors digest ?ch (Suc i) = [Error ''Incompatible previous hash'']"
    using os i il h by (auto simp: blockErrors_def validate_def split: if_splits)
  have other: "blockErrors digest ?ch j = []" if "j < length ?ch" "j \<noteq> i" "j \<noteq> Suc i" for j
    using that ok by (simp add: blockErrors_hash_other)
  have "walkAndValidate digest ?ch = blockErrors digest ?ch i @ blockErrors digest ?ch (Suc i)"
    using i other by (intro walk_two) simp_all
  then show ?thesis by (simp add: validateChain_walk self succ)
qed

theorem altered_hash_two_errors_witness:
  "validateChain stringify (chain star_chain) = [] \<and>
   Suc 0 < length (chain star_chain) \<and>
   Some ''00'' \<noteq> hash (chain star_chain ! 0) \<and>
   validateChain stringify ((chain star_chain)[0 := (chain star_chain ! 0)\<lparr>hash := Some ''00''\<rparr>]) =
     [Error ''Block not valid'', Error ''Incompatible previous hash'']"
proof -
  have v: "validateChain stringify (chain star_chain) = []"
    by (simp add: star_chain_eq eval_defs)
  have l: "Suc 0 < length (chain star_chain)" by (simp add: star_chain_eq)
  have h: "Some ''00'' \<noteq> hash (chain star_chain ! 0)" by (simp add: star_chain_eq)
  show ?thesis using v l h altered_hash_two_errors [OF v l h] by simp
qed

section \<open>Stars of an owner\<close>

lemma getStars_loop_eq:
  "getStars_loop decode address ch stars =
     (if list_all (decodable decode) ch
      then Some (stars @ starsByOwner decode ch address) else None)"
proof (induction ch arbitrary: stars)
  case Nil
  then show ?case by (simp add: starsByOwner_def)
next
  case (Cons blk rest)
  show ?case
    by (simp add: Cons.IH starsByOwner_def ownedStar_def decodable_def
        split: option.splits bdata.splits)
qed

lemma set_map_filter_conv: "set (List.map_filter f xs) = {y. \<exists>x\<in>set xs. f x = Some y}"
  by (induction xs) (auto split: option.splits)

lemma ownedStar_Some_iff:
  "ownedStar decode address b = Some star \<longleftrightarrow>
     block.height b > 0 \<and> getBData decode b = Some (Star_data address star)"
proof (cases "getBData decode b")
  case None
  then show ?thesis by (simp add: ownedStar_def)
next
  case (Some d)
  then show ?thesis by (cases d) (auto simp: ownedStar_def)
qed

lemma set_starsByOwner:
  "set (starsByOwner decode ch address) =
     {star. \<exists>b\<in>set ch. block.height b > 0 \<and> getBData decode b = Some (Star_data address star)}"
  by (simp add: starsByOwner_def set_map_filter_conv ownedStar_Some_iff)

text \<open>
  C7. For every address, the stars returned are exactly the decoded stars of the
  blocks above height 0 (the Genesis block is left out) whose decoded owner is the
  address, in chain order; each is the decoded star, not the stored body. The promise
  settles exactly when every block above height 0 decodes.
\<close>

theorem getStarsByWalletAddress_spec:
  "getStarsByWalletAddress decode bc address =
     (if list_all (decodable decode) (chain bc)
      then Some (starsByOwner decode (chain bc) address) else None) \<and>
   set (starsByOwner decode (chain bc) address) =
     {star. \<exists>b\<in>set (chain bc).
        block.height b > 0 \<and> getBData decode b = Some (Star_data address star)}"
  by (simp add: getStarsByWalletAddress_def getStars_loop_eq set_starsByOwner)

theorem getStarsByWalletAddress_spec_witness:
  "list_all (decodable decode_text) (chain star_chain) \<and>
   getStarsByWalletAddress decode_text star_chain ''1xyz'' = Some [''16h 29m 1.0s''] \<and>
   starsByOwner decode_text (chain star_chain) ''1xyz'' = [''16h 29m 1.0s''] \<and>
   getStarsByWalletAddress decode_text star_chain ''1abc'' = Some []"
proof -
  have d: "list_all (decodable decode_text) (chain star_chain)"
    by (simp add: star_chain_eq decodable_def eval_defs)
  have s: "starsByOwner decode_text (chain star_chain) ''1xyz'' = [''16h 29m 1.0s'']"
    by (simp add: star_chain_eq starsByOwner_def ownedStar_def eval_defs)
  have t: "starsByOwner decode_text (chain star_chain) ''1abc'' = []"
    by (simp add: star_chain_eq starsByOwner_def ownedStar_def eval_defs)
  show ?thesis
    using d s t getStarsByWalletAddress_spec [of decode_text star_chain "''1xyz''"]
      getStarsByWalletAddress_spec [of decode_text star_chain "''1abc''"]
    by simp
qed

section \<open>The challenge message\<close>

lemma toString_snoc: "10 \<le> n \<Longrightarrow> toString n = toString (n div 10) @ [digit_char (n mod 10)]"
  by (subst toString.simps) simp

lemma slice0_snoc3: "slice0 (s @ [a, b, c]) 3 = s"
  by (simp add: slice0_def)

lemma slice0_toString:
  assumes "1000 \<le> n"
  shows "slice0 (toString n) 3 = toString (n div 1000)"
proof -
  have a: "10 \<le> n" and b: "10 \<le> n div 10" and c: "10 \<le> n div 10 div 10"
    using assms by simp_all
  have d: "n div 10 div 10 div 10 = n div 1000"
    by (simp add: div_mult2_eq [symmetric])
  have "toString n = toString (n div 1000) @
      [digit_char (n div 10 div 10 mod 10), digit_char (n div 10 mod 10), digit_char (n mod 10)]"
    using toString_snoc [OF a] toString_snoc [OF b] toString_snoc [OF c] by (simp add: d)
  then show ?thesis by (simp add: slice0_snoc3)
qed

lemma below_ten: "d < 10 \<Longrightarrow> d \<in> {0, 1, 2, 3, 4, 5, 6, 7, 8, 9::nat}"
  by auto

lemma digit_char_value: "d < 10 \<Longrightarrow> digitValue (digit_char d) = Some d"
  by (drule below_ten) (auto simp: digitValue_def digit_char_def)

lemma digit_char_plain:
  "d < 10 \<Longrightarrow> \<not> isWhiteSpace (digit_char d) \<and> digit_char d \<notin> set ''+-xX''"
  by (drule below_ten) (auto simp: isWhiteSpace_def digit_char_def)

lemma plain_digitI: "d < 10 \<Longrightarrow> plain_digit (digit_char d)"
  unfolding plain_digit_def by blast

lemma plain_digit_facts:
  assumes "plain_digit c"
  shows "\<not> isWhiteSpace c" and "c \<noteq> CHR ''+''" and "c \<noteq> CHR ''-''"
    and "c \<noteq> CHR ''x''" and "c \<noteq> CHR ''X''" and "isDigit 10 c"
proof -
  from assms obtain d where d: "d < 10" and c: "c = digit_char d"
    unfolding plain_digit_def by blast
  show "\<not> isWhiteSpace c" and "c \<noteq> CHR ''+''" and "c \<noteq> CHR ''-''"
    and "c \<noteq> CHR ''x''" and "c \<noteq> CHR ''X''"
    using digit_char_plain [OF d] by (simp_all add: c)
  show "isDigit 10 c"
    using d by (simp add: isDigit_def c digit_char_value)
qed

lemma toString_plain: "c \<in> set (toString n) \<Longrightarrow> plain_digit c"
proof (induction n arbitrary: c rule: toString.induct)
  case (1 n)
  show ?case
  proof (cases "n < 10")
    case True
    with "1.prems" have "c = digit_char n"
      by (subst (asm) toString.simps) simp
    with True show ?thesis by (simp add: plain_digitI)
  next
    case False
    have m: "n mod 10 < 10" by simp
    from "1.prems" False have "c \<in> set (toString (n div 10)) \<or> c = digit_char (n mod 10)"
      by (subst (asm) toString.simps) auto
    then show ?thesis
    proof
      assume "c \<in> set (toString (n div 10))"
      then show ?thesis by (rule "1.IH" [OF False])
    next
      assume "c = digit_char (n mod 10)"
      then show ?thesis using plain_digitI [OF m] by simp
    qed
  qed
qed

lemma toString_not_Nil: "toString n \<noteq> []"
  by (subst toString.simps) simp

lemma digitsValue_snoc:
  "digitsValue R (Z @ [c]) =
     digitsValue R Z * R + (case digitValue c of None \<Rightarrow> 0 | Some v \<Rightarrow> v)"
  by (simp add: digitsValue_def)

lemma digitsValue_toString: "digitsValue 10 (toString n) = n"
proof (induction n rule: toString.induct)
  case (1 n)
  show ?case
  proof (cases "n < 10")
    case True
    then show ?thesis
      by (subst toString.simps) (simp add: digitsValue_def digit_char_value)
  next
    case False
    have m: "n mod 10 < 10" by simp
    show ?thesis
      using False "1.IH" [OF False]
      by (subst toString.simps) (simp add: digitsValue_snoc digit_char_value [OF m])
  qed
qed

lemma parseInt_toString: "parseInt (toString n) = Some (int n)"
proof -
  let ?s = "toString n"
  have pl: "\<And>c. c \<in> set ?s \<Longrightarrow> plain_digit c" by (rule toString_plain)
  obtain c r where s: "?s = c # r" using toString_not_Nil [of n] by (cases ?s) auto
  have "plain_digit c" using pl [of c] by (simp add: s)
  then have c: "\<not> isWhiteSpace c" "c \<noteq> CHR ''-''" "c \<noteq> CHR ''+''"
    by (simp_all add: plain_digit_facts)
  have nx: "CHR ''x'' \<notin> set ?s" "CHR ''X'' \<notin> set ?s"
    using pl plain_digit_facts(4,5) by blast+
  have sub: "set (take 2 ?s) \<subseteq> set ?s" by (rule set_take_subset)
  have x: "take 2 ?s \<noteq> ''0x''" "take 2 ?s \<noteq> ''0X''"
  proof -
    show "take 2 ?s \<noteq> ''0x''"
    proof
      assume "take 2 ?s = ''0x''"
      then have "CHR ''x'' \<in> set (take 2 ?s)" by simp
      with sub nx show False by blast
    qed
    show "take 2 ?s \<noteq> ''0X''"
    proof
      assume "take 2 ?s = ''0X''"
      then have "CHR ''X'' \<in> set (take 2 ?s)" by simp
      with sub nx show False by blast
    qed
  qed
  have d: "takeWhile (isDigit 10) ?s = ?s"
    using pl plain_digit_facts(6) by (simp add: takeWhile_eq_all_conv)
  note facts = c x [unfolded s] d [unfolded s]
  have "parseInt (c # r) = Some (int (digitsValue 10 (c # r)))"
    using facts by (auto simp: parseInt_def Let_def split: if_splits)
  then show ?thesis
    using digitsValue_toString [of n] by (simp add: s)
qed

text \<open>
  C8. Once the clock shows at least one second, the challenge for an address is the
  address, a colon, the decimal text of the clock in whole seconds, and the suffix
  \<^verbatim>\<open>:starRegistry\<close>; that text reads back as the number of seconds.
\<close>

theorem requestMessageOwnershipVerification_format:
  "1000 \<le> now \<Longrightarrow>
     requestMessageOwnershipVerification now address =
       address @ '':'' @ toString (now div 1000) @ '':starRegistry'' \<and>
     parseInt (toString (now div 1000)) = Some (int (now div 1000))"
  by (simp add: requestMessageOwnershipVerification_def slice0_toString parseInt_toString)

theorem requestMessageOwnershipVerification_format_witness:
  "(1000::nat) \<le> 1600000000999 \<and>
   requestMessageOwnershipVerification 1600000000999 ''1xyz'' = ''1xyz:1600000000:starRegistry'' \<and>
   parseInt ''1600000000'' = Some 1600000000"
proof -
  have h: "(1000::nat) \<le> 1600000000999" by simp
  show ?thesis
    using h requestMessageOwnershipVerification_format [OF h, of "''1xyz''"]
    by (simp add: toString.simps digit_char_def)
qed

section \<open>Claims\<close>

text \<open>What the promise of \<^verbatim>\<open>submitStar\<close> is given, and what the call does to the chain.\<close>

lemma submitStar_outcome:
  "fst (submitStar digest encode verify now bc address message signature star) =
     (if elapsedExceeds (parseInt (slice0 (toString now) 3)) (messageTime message)
           30000000000000000000000000000
      then Inl (Error ''ERROR - 5 minutes or more have passed.'')
      else (case verify message address signature of
              None \<Rightarrow> Inl VerifyThrown
            | Some False \<Rightarrow> Inl (Error ''ERROR - Message with wallet address invalid'')
            | Some True \<Rightarrow>
                Inr (addBlock_block digest now bc (Block encode (Star_data address star)))))"
  by (simp add: submitStar_def Let_def settle_def split: option.splits bool.splits)

lemma submitStar_appends:
  "validateChain digest (chain bc) = [] \<Longrightarrow>
     chain (snd (submitStar digest encode verify now bc address message signature star)) =
       chain bc @ [addBlock_block digest now bc (Block encode (Star_data address star))]"
  by (simp add: submitStar_snd addBlock_ok)

text \<open>
  C1. A claim whose signature does not verify is rejected with the error of an invalid
  wallet message, and the chain after the call holds one block more than before: the
  statements after the call of \<^verbatim>\<open>reject\<close> still run and append the block.
\<close>

theorem submitStar_rejected_appends:
  "fst (submitStar stringify encode_text verify_text 1600000001000 genesis_chain ''1xyz''
          ''1xyz:1600000000:starRegistry'' ''forged'' ''16h 29m 1.0s'') =
     Inl (Error ''ERROR - Message with wallet address invalid'') \<and>
   verify_text ''1xyz:1600000000:starRegistry'' ''1xyz'' ''forged'' = Some False \<and>
   snd (submitStar stringify encode_text verify_text 1600000001000 genesis_chain ''1xyz''
          ''1xyz:1600000000:starRegistry'' ''forged'' ''16h 29m 1.0s'') = star_chain \<and>
   length (chain genesis_chain) = 1 \<and> height genesis_chain = 0 \<and>
   length (chain star_chain) = 2 \<and> height star_chain = 1"
  by (simp add: star_chain_eq genesis_chain_eq eval_defs)

text \<open>
  C2. A claim made 301 seconds after the challenge was issued, with a signature that
  verifies, is not rejected: the elapsed time is compared with
  30000000000000000000000000000 and not with 300, the promise resolves with the new
  block, and the block is appended.
\<close>

theorem submitStar_expired_accepted:
  "parseInt (slice0 (toString 1600000301000) 3) = Some 1600000301 \<and>
   messageTime ''1xyz:1600000000:starRegistry'' = Some 1600000000 \<and>
   elapsedExceeds (Some 1600000301) (Some 1600000000) 300 \<and>
   verify_text ''1xyz:1600000000:starRegistry'' ''1xyz''
     ''signed:1xyz/1xyz:1600000000:starRegistry'' = Some True \<and>
   fst (submitStar stringify encode_text verify_text 1600000301000 genesis_chain ''1xyz''
          ''1xyz:1600000000:starRegistry'' ''signed:1xyz/1xyz:1600000000:starRegistry''
          ''16h 29m 1.0s'') =
     Inr (addBlock_block stringify 1600000301000 genesis_chain
            (Block encode_text (Star_data ''1xyz'' ''16h 29m 1.0s''))) \<and>
   length (chain (snd (submitStar stringify encode_text verify_text 1600000301000 genesis_chain
          ''1xyz'' ''1xyz:1600000000:starRegistry''
          ''signed:1xyz/1xyz:1600000000:starRegistry'' ''16h 29m 1.0s''))) = 2"
  by (simp add: genesis_chain_eq eval_defs)

section \<open>Appends that overlap\<close>

lemmas node_defs = new_Blockchain_def suspend_addBlock_def resume_addBlock_def
  call_submitStar_def

lemma overlapping_run_eq:
  "overlapping_run =
     Some \<lparr>committed =
       \<lparr>chain = [\<lparr>hash = Some ''null,0,GGenesis Block,1600000000,null'', height = 0,
                  body = ''GGenesis Block'', time = ''1600000000'', previousBlockHash = None\<rparr>,
                 \<lparr>hash = Some ''null,1,S1xyz|16h 29m 1.0s,1600000001,null,0,GGenesis Block,1600000000,null'',
                  height = 1, body = ''S1xyz|16h 29m 1.0s'', time = ''1600000001'',
                  previousBlockHash = Some ''null,0,GGenesis Block,1600000000,null''\<rparr>,
                 \<lparr>hash = Some ''null,1,S1xyz|18h 01m 2.0s,1600000001,null,0,GGenesis Block,1600000000,null'',
                  height = 1, body = ''S1xyz|18h 01m 2.0s'', time = ''1600000001'',
                  previousBlockHash = Some ''null,0,GGenesis Block,1600000000,null''\<rparr>],
        height = 1\<rparr>,
      inflight = []\<rparr>"
  by (simp add: overlapping_run_def node_defs eval_defs)

lemma early_run_eq:
  "early_run =
     Some \<lparr>committed =
       \<lparr>chain = [\<lparr>hash = Some ''null,0,GGenesis Block,1600000000,null'', height = 0,
                  body = ''GGenesis Block'', time = ''1600000000'', previousBlockHash = None\<rparr>,
                 \<lparr>hash = Some ''null,0,S1xyz|16h 29m 1.0s,1600000000,null'',
                  height = 0, body = ''S1xyz|16h 29m 1.0s'', time = ''1600000000'',
                  previousBlockHash = None\<rparr>],
        height = 0\<rparr>,
      inflight = []\<rparr>"
  by (simp add: early_run_def node_defs eval_defs)


lemma run_reachable:
  "reachable digest encode verify nd \<Longrightarrow> run digest encode verify nd es = Some nd' \<Longrightarrow>
     reachable digest encode verify nd'"
proof (induction es arbitrary: nd)
  case Nil
  then show ?case by simp
next
  case (Cons e es)
  from Cons.prems(2) obtain nd1 where s: "step digest encode verify nd e = Some nd1"
    and r: "run digest encode verify nd1 es = Some nd'"
    by (auto split: option.splits)
  have "reachable digest encode verify nd1"
  proof (cases e)
    case (Submit now address message signature star)
    with s Cons.prems(1) show ?thesis by (auto intro: reachable.called)
  next
    case (Resume k n)
    with s Cons.prems(1) show ?thesis by (auto intro: reachable.resumed)
  qed
  then show ?case using r by (rule Cons.IH)
qed

lemma linked_to_snoc: "linked_to ch b \<Longrightarrow> linked_to (ch @ [c]) b"
  by (auto simp: linked_to_def split: if_splits)

lemma sealed_linked:
  assumes c: "if chain bc = [] then height bc = - 1 else height bc = block.height (last (chain bc))"
    and l: "list_all (linked_to (chain bc)) (chain bc)"
    and p: "previousBlockHash blk = None"
  shows "linked_to (chain bc) (addBlock_block digest now bc blk)"
proof (cases "chain bc = []")
  case True
  with c p show ?thesis by (simp add: linked_to_def addBlock_block_fields)
next
  case False
  then have m: "last (chain bc) \<in> set (chain bc)" by simp
  with l have "0 \<le> block.height (last (chain bc))"
    by (auto simp: list_all_iff linked_to_def)
  with c False m show ?thesis
    by (auto simp: linked_to_def addBlock_block_fields)
qed

lemma suspend_node_ok:
  assumes "node_ok nd" and "previousBlockHash blk = None"
  shows "node_ok (suspend_addBlock digest now nd blk)"
  using assms sealed_linked [of "committed nd" blk digest now]
  by (simp add: node_ok_def suspend_addBlock_def)

lemma resume_node_ok:
  assumes ok: "node_ok nd" and r: "resume_addBlock digest nd k n = Some nd'"
  shows "node_ok nd'"
proof -
  let ?bc = "committed nd"
  let ?b = "fst (inflight nd ! k)"
  let ?others = "take k (inflight nd) @ drop (Suc k) (inflight nd)"
  from r have k: "k < length (inflight nd)"
    by (simp add: resume_addBlock_def split: if_splits)
  have c: "if chain ?bc = [] then height ?bc = - 1
      else height ?bc = block.height (last (chain ?bc))"
    and l: "list_all (linked_to (chain ?bc)) (chain ?bc)"
    and f: "list_all (linked_to (chain ?bc)) (map fst (inflight nd))"
    using ok by (simp_all add: node_ok_def)
  have sub: "set ?others \<subseteq> set (inflight nd)"
    by (auto dest: in_set_takeD in_set_dropD)
  have o: "list_all (linked_to (chain ?bc)) (map fst ?others)"
    using f sub unfolding list_all_iff by auto
  have b: "linked_to (chain ?bc) ?b"
    using f k unfolding list_all_iff by (auto simp: set_conv_nth)
  from r consider
      "nd' = \<lparr>committed = ?bc, inflight = ?others\<rparr>"
    | "nd' = \<lparr>committed = ?bc\<lparr>chain := chain ?bc @ [?b], height := block.height ?b\<rparr>,
              inflight = ?others\<rparr>"
    by (auto simp: resume_addBlock_def Let_def split: if_splits)
  then show ?thesis
  proof cases
    case 1
    then show ?thesis using c l o by (simp add: node_ok_def)
  next
    case 2
    have l': "list_all (linked_to (chain ?bc @ [?b])) (chain ?bc @ [?b])"
      using l b unfolding list_all_iff by (auto intro: linked_to_snoc)
    have o': "list_all (linked_to (chain ?bc @ [?b])) (map fst ?others)"
      using o unfolding list_all_iff by (auto intro: linked_to_snoc)
    show ?thesis using 2 l' o' by (simp add: node_ok_def)
  qed
qed

lemma reachable_node_ok: "reachable digest encode verify nd \<Longrightarrow> node_ok nd"
proof (induction rule: reachable.induct)
  case (created now)
  have "node_ok \<lparr>committed = Blockchain, inflight = []\<rparr>"
    by (simp add: node_ok_def Blockchain_def)
  then show ?case
    by (simp add: new_Blockchain_def Let_def suspend_node_ok Block_fresh)
next
  case (called nd now address message signature star)
  then show ?case by (simp add: call_submitStar_def suspend_node_ok Block_fresh)
next
  case (resumed nd k n nd')
  then show ?case by (auto intro: resume_node_ok)
qed

text \<open>The parts of the claims that overlapping appends keep.\<close>

lemma reachable_counter:
  assumes "reachable digest encode verify nd"
  shows "(getChainHeight (committed nd) = - 1 \<longleftrightarrow> chain (committed nd) = []) \<and>
         (chain (committed nd) \<noteq> [] \<longrightarrow>
            getChainHeight (committed nd) = block.height (last (chain (committed nd))))"
proof -
  have ok: "node_ok nd" using assms by (rule reachable_node_ok)
  show ?thesis
  proof (cases "chain (committed nd) = []")
    case True
    with ok show ?thesis by (simp add: node_ok_def getChainHeight_def)
  next
    case False
    then have "last (chain (committed nd)) \<in> set (chain (committed nd))" by simp
    with ok have "0 \<le> block.height (last (chain (committed nd)))"
      by (auto simp: node_ok_def list_all_iff linked_to_def)
    with ok False show ?thesis by (simp add: node_ok_def getChainHeight_def)
  qed
qed

lemma reachable_linked_to:
  assumes "reachable digest encode verify nd" and "b \<in> set (chain (committed nd))"
  shows "(block.height b = 0 \<longrightarrow> previousBlockHash b = None) \<and>
         (block.height b \<noteq> 0 \<longrightarrow>
            (\<exists>p\<in>set (chain (committed nd)).
               block.height p = block.height b - 1 \<and> previousBlockHash b = hash p))"
  using reachable_node_ok [OF assms(1)] assms(2)
  by (auto simp: node_ok_def list_all_iff linked_to_def split: if_splits)

lemma overlapping_run_reachable:
  "overlapping_run = Some nd \<Longrightarrow> reachable stringify encode_text verify_text nd"
  unfolding overlapping_run_def by (rule run_reachable [OF reachable.created])

lemma early_run_reachable:
  "early_run = Some nd \<Longrightarrow> reachable stringify encode_text verify_text nd"
  unfolding early_run_def by (rule run_reachable [OF reachable.created])

lemma overlapping_run_audit:
  "map_option (\<lambda>nd. validateChain stringify (chain (committed nd))) overlapping_run =
     Some [Error ''Incompatible previous hash'']"
  by (simp add: overlapping_run_eq eval_defs)

text \<open>
  C3. Two claims are submitted one after the other on a chain that holds the Genesis
  block, the second before the append of the first has resumed. The chain reached
  holds three blocks of heights 0, 1 and 1: the third block does not have its index
  as height, and its previous hash is the hash of the Genesis block and not the hash
  of the block before it. The audit of that chain reports the broken link.
\<close>

theorem overlapping_appends_unlinked:
  "\<exists>nd. overlapping_run = Some nd \<and>
     reachable stringify encode_text verify_text nd \<and>
     inflight nd = [] \<and>
     map block.height (chain (committed nd)) = [0, 1, 1] \<and>
     block.height (chain (committed nd) ! 2) \<noteq> 2 \<and>
     previousBlockHash (chain (committed nd) ! 2) = hash (chain (committed nd) ! 0) \<and>
     previousBlockHash (chain (committed nd) ! 2) \<noteq> hash (chain (committed nd) ! 1) \<and>
     validateChain stringify (chain (committed nd)) = [Error ''Incompatible previous hash'']"
proof -
  obtain nd where nd: "overlapping_run = Some nd" by (simp add: overlapping_run_eq)
  have r: "reachable stringify encode_text verify_text nd"
    using nd by (rule overlapping_run_reachable)
  have v: "validateChain stringify (chain (committed nd)) = [Error ''Incompatible previous hash'']"
    using overlapping_run_audit by (simp add: nd)
  have e1: "inflight nd = []"
    and e2: "map block.height (chain (committed nd)) = [0, 1, 1]"
    and e3: "block.height (chain (committed nd) ! 2) \<noteq> 2"
    and e4: "previousBlockHash (chain (committed nd) ! 2) = hash (chain (committed nd) ! 0)"
    and e5: "previousBlockHash (chain (committed nd) ! 2) \<noteq> hash (chain (committed nd) ! 1)"
    using nd unfolding overlapping_run_eq by clarsimp+
  show ?thesis
    by (rule exI [of _ nd]) (intro conjI nd r v e1 e2 e3 e4 e5)
qed

text \<open>
  C10. In that run the height read at the end is 1 while the chain holds three blocks.
  When a claim is submitted right after the constructor returns, before the append of
  the Genesis block has resumed, the height read at the end is 0 while the chain
  holds two blocks, both of height 0. In neither is the height the length of the
  chain minus one.
\<close>

theorem overlapping_appends_height:
  "(\<exists>nd. overlapping_run = Some nd \<and>
      reachable stringify encode_text verify_text nd \<and>
      inflight nd = [] \<and>
      length (chain (committed nd)) = 3 \<and>
      getChainHeight (committed nd) = 1 \<and>
      block.height (last (chain (committed nd))) = 1) \<and>
   (\<exists>nd. early_run = Some nd \<and>
      reachable stringify encode_text verify_text nd \<and>
      inflight nd = [] \<and>
      length (chain (committed nd)) = 2 \<and>
      getChainHeight (committed nd) = 0 \<and>
      map block.height (chain (committed nd)) = [0, 0])"
proof (rule conjI)
  obtain nd where nd: "overlapping_run = Some nd" by (simp add: overlapping_run_eq)
  have r: "reachable stringify encode_text verify_text nd"
    using nd by (rule overlapping_run_reachable)
  have e1: "inflight nd = []"
    and e2: "length (chain (committed nd)) = 3"
    and e3: "getChainHeight (committed nd) = 1"
    and e4: "block.height (last (chain (committed nd))) = 1"
    using nd unfolding overlapping_run_eq by (clarsimp simp: getChainHeight_def)+
  show "\<exists>nd. overlapping_run = Some nd \<and>
      reachable stringify encode_text verify_text nd \<and>
      inflight nd = [] \<and>
      length (chain (committed nd)) = 3 \<and>
      getChainHeight (committed nd) = 1 \<and>
      block.height (last (chain (committed nd))) = 1"
    by (rule exI [of _ nd]) (intro conjI nd r e1 e2 e3 e4)
next
  obtain nd where nd: "early_run = Some nd" by (simp add: early_run_eq)
  have r: "reachable stringify encode_text verify_text nd"
    using nd by (rule early_run_reachable)
  have e1: "inflight nd = []"
    and e2: "length (chain (committed nd)) = 2"
    and e3: "getChainHeight (committed nd) = 0"
    and e4: "map block.height (chain (committed nd)) = [0, 0]"
    using nd unfolding early_run_eq by (clarsimp simp: getChainHeight_def)+
  show "\<exists>nd. early_run = Some nd \<and>
      reachable stringify encode_text verify_text nd \<and>
      inflight nd = [] \<and>
      length (chain (committed nd)) = 2 \<and>
      getChainHeight (committed nd) = 0 \<and>
      map block.height (chain (committed nd)) = [0, 0]"
    by (rule exI [of _ nd]) (intro conjI nd r e1 e2 e3 e4)
qed

end
